theory Spec2Isabelle
  imports Main "HOL-Library.Word"
begin

unbundle bit_operations_syntax

section \<open>The F007TH monitor sketch (F007THv2.ino) as HOL functions\<close>

text \<open>
  The sketch keeps all of its state in global variables and is driven by the Arduino
  runtime calling \<open>loop()\<close> again and again. The model passes the globals around as
  one record and gives every external read of a \<open>loop()\<close> call (pin level, \<open>micros()\<close>,
  \<open>millis()\<close>, the timestamp left by the interrupt routine) as an input.

  \<^item> \<open>byte\<close> is an 8-bit word, \<open>unsigned long\<close> a 32-bit word; both wrap around.
  \<^item> \<open>int\<close> values are HOL integers. Every \<open>int\<close> the sketch computes comes from
    frame bytes and stays within \<open>-2047 .. 2047\<close>, inside the range of a 16-bit
    \<open>int\<close>, so no width is needed.
  \<^item> A C array is a function from the index to the element. Indices the source
    guards (\<open>stnId\<close> in \<open>0..7\<close>) are guarded in the model; the unguarded store
    \<open>manchester[nosBytes]\<close> is checked against the declared size 7 and a store
    outside the array makes the step return \<open>None\<close>.
  \<^item> \<open>siTemp = 0.0556 * (newTemp - 720)\<close> is floating point and the text that
    \<open>Serial.print\<close> and \<open>dtostrf\<close> make of it is library code; the model records the
    integer operand \<open>newTemp - 720\<close> of that multiplication in the emitted reading.
\<close>

type_synonym byte = "8 word"
type_synonym ulong = "32 word"

text \<open>
  What one execution of the forwarding block (lines 328-345) hands to the serial line
  and to the display: \<open>stnId + 1\<close>, the operand \<open>newTemp - 720\<close> of the Celsius
  conversion, and \<open>newHum\<close>.
\<close>

record reading =
  rd_channel :: int
  rd_temp_offset :: int
  rd_hum :: int

record state =
  tempBit :: byte
  firstZero :: bool
  headerHits :: byte
  dataByte :: byte
  nosBits :: byte
  nosBytes :: byte
  manchester :: "nat \<Rightarrow> byte"
  dataType :: int
  differencetemp :: int
  differencehum :: int
  Newtemp :: int
  Newhum :: int
  chTemp :: "nat \<Rightarrow> int"
  chHum :: "nat \<Rightarrow> int"
  chLastRecv :: "nat \<Rightarrow> ulong"
  isrcalled :: bool
  Dstop :: ulong
  rxstate :: byte
  sent :: "reading list"
  handed :: "byte list list"

text \<open>
  The last two fields are observation logs, not variables of the sketch: \<open>sent\<close>
  collects what the forwarding block prints, \<open>handed\<close> the first six bytes of
  \<open>manchester\<close> each time the block guarded by \<open>nosBytes == maxBytes\<close> (line 269)
  is entered, i.e. each frame handed to the interpreter.
\<close>

subsection \<open>Globals that are never assigned\<close>

definition sDelay :: ulong where "sDelay = 242"
definition lDelay :: ulong where "lDelay = 484"
definition polarity :: byte where "polarity = 1"
definition headerBits :: byte where "headerBits = 10"
definition maxBytes :: byte where "maxBytes = 6"

text \<open>The declared size of \<open>byte manchester[7]\<close>.\<close>

definition manchester_size :: nat where "manchester_size = 7"

subsection \<open>\<open>setup()\<close> and \<open>eraseManchester()\<close>\<close>

definition eraseManchester :: "state \<Rightarrow> state" where
  "eraseManchester st =
     st\<lparr>manchester := (\<lambda>j. if j < 4 then of_nat j else manchester st j)\<rparr>"

text \<open>
  The globals after their initialisers and \<open>setup()\<close>: the channel tables hold the
  sentinel 720, humidity 0 and time 0 in all eight entries.
\<close>

definition setup_state :: state where
  "setup_state = eraseManchester
     \<lparr>tempBit = 1, firstZero = False, headerHits = 0, dataByte = 0, nosBits = 6,
      nosBytes = 0, manchester = (\<lambda>j. 0), dataType = 0, differencetemp = 0,
      differencehum = 0, Newtemp = 0, Newhum = 0, chTemp = (\<lambda>c. 720),
      chHum = (\<lambda>c. 0), chLastRecv = (\<lambda>c. 0), isrcalled = False, Dstop = 0,
      rxstate = 0, sent = [], handed = []\<rparr>"

subsection \<open>\<open>saveReading\<close> (lines 294-348)\<close>

text \<open>
  Lines 301-318: the plausibility filter. It returns the globals and the local flag
  \<open>sendData\<close>.
\<close>

definition validate :: "state \<Rightarrow> nat \<Rightarrow> int \<Rightarrow> int \<Rightarrow> state \<times> bool" where
  "validate st c newTemp newHum =
     (if chTemp st c = 720 then
        (st\<lparr>chTemp := (chTemp st)(c := newTemp), chHum := (chHum st)(c := newHum)\<rparr>, True)
      else
        (let st1 = st\<lparr>differencetemp := newTemp - chTemp st c,
                       differencehum := newHum - chHum st c\<rparr>
         in if (differencetemp st1 < 20 \<and> differencetemp st1 > - 20)
               \<and> (differencehum st1 < 5 \<and> differencehum st1 > - 5)
            then (st1\<lparr>chTemp := (chTemp st1)(c := newTemp),
                       chHum := (chHum st1)(c := newHum)\<rparr>, True)
            else (st1, False)))"

text \<open>The condition of line 322, on the unsigned 32-bit millisecond clock.\<close>

definition due :: "state \<Rightarrow> nat \<Rightarrow> ulong \<Rightarrow> bool" where
  "due st c now \<longleftrightarrow> chLastRecv st c > now \<or> now - chLastRecv st c > 1000"

text \<open>Lines 328-345: print the reading and stamp the channel.\<close>

definition forward :: "state \<Rightarrow> int \<Rightarrow> int \<Rightarrow> int \<Rightarrow> ulong \<Rightarrow> state" where
  "forward st stnId newTemp newHum now =
     st\<lparr>sent := sent st @
            [\<lparr>rd_channel = stnId + 1, rd_temp_offset = newTemp - 720, rd_hum = newHum\<rparr>],
        chLastRecv := (chLastRecv st)(nat stnId := now)\<rparr>"

text \<open>\<open>now\<close> is the value \<open>millis()\<close> returns at line 320.\<close>

definition saveReading :: "ulong \<Rightarrow> state \<Rightarrow> int \<Rightarrow> int \<Rightarrow> int \<Rightarrow> state" where
  "saveReading now st stnId newTemp newHum =
     (if stnId \<ge> 0 \<and> stnId \<le> 7 then
        (let (st1, sendData) = validate st (nat stnId) newTemp newHum
         in if sendData \<and> due st1 (nat stnId) now
            then forward st1 stnId newTemp newHum now
            else st1)
      else st)"

subsection \<open>\<open>add\<close> (lines 259-292)\<close>

text \<open>Lines 275-284: the fields of a frame.\<close>

definition frame_stnId :: "(nat \<Rightarrow> byte) \<Rightarrow> int" where
  "frame_stnId m = uint (m 3 AND 0x70) div 16"

definition frame_dataType :: "(nat \<Rightarrow> byte) \<Rightarrow> int" where
  "frame_dataType m = uint (m 1)"

text \<open>
  The source computes \<open>float((manchester[3] & B00000111) * 256) + manchester[4]\<close> and
  assigns it to an \<open>int\<close>; the operands are integers below 2048, which a float holds
  exactly, so the result is the integer sum.
\<close>

definition frame_Newtemp :: "(nat \<Rightarrow> byte) \<Rightarrow> int" where
  "frame_Newtemp m = uint (m 3 AND 0x07) * 256 + uint (m 4)"

definition frame_Newhum :: "(nat \<Rightarrow> byte) \<Rightarrow> int" where
  "frame_Newhum m = uint (m 5)"

text \<open>Lines 271-290, the body of \<open>if (nosBytes == maxBytes)\<close>.\<close>

definition interpret_frame :: "ulong \<Rightarrow> state \<Rightarrow> state" where
  "interpret_frame now st =
     (let st1 = st\<lparr>rxstate := 0,
                    handed := handed st @ [map (manchester st) [0..<6]],
                    dataType := frame_dataType (manchester st),
                    Newtemp := frame_Newtemp (manchester st),
                    Newhum := frame_Newhum (manchester st)\<rparr>
      in if dataType st1 = 0x45 \<and> Newhum st1 \<le> 100
         then saveReading now st1 (frame_stnId (manchester st)) (Newtemp st1) (Newhum st1)
         else st1)"

text \<open>
  Lines 261-268: shift the bit in and, on the eighth bit, store the byte. The store is
  outside the array when \<open>nosBytes\<close> is 7 or more.
\<close>

definition store_bit :: "state \<Rightarrow> byte \<Rightarrow> state option" where
  "store_bit st bitData =
     (let st1 = st\<lparr>dataByte := push_bit 1 (dataByte st) OR bitData,
                    nosBits := nosBits st + 1\<rparr>
      in if nosBits st1 = 8 then
           (if unat (nosBytes st1) < manchester_size then
              Some (st1\<lparr>nosBits := 0,
                        manchester := (manchester st1)(unat (nosBytes st1) := dataByte st1),
                        nosBytes := nosBytes st1 + 1\<rparr>)
            else None)
         else Some st1)"

definition add :: "ulong \<Rightarrow> state \<Rightarrow> byte \<Rightarrow> state option" where
  "add now st bitData =
     (case store_bit st bitData of
        None \<Rightarrow> None
      | Some st1 \<Rightarrow> Some (if nosBytes st1 = maxBytes then interpret_frame now st1 else st1))"

subsection \<open>\<open>loop\<close> (lines 161-255)\<close>

text \<open>
  The external reads of one \<open>loop()\<close> call, in the order the cases make them: the pin
  in cases 1, 2 and 4, \<open>EdgeTime\<close> in case 1, \<open>micros()\<close> in cases 2 and 3, and
  \<open>millis()\<close> inside \<open>saveReading\<close>.
\<close>

record reads =
  pin1 :: byte
  EdgeTime :: ulong
  micros2 :: ulong
  pin2 :: byte
  micros3 :: ulong
  pin4 :: byte
  millis :: ulong

text \<open>Lines 252-253, the end of case 4.\<close>

definition next_bit :: "state \<Rightarrow> state" where
  "next_bit st = st\<lparr>rxstate := 1, isrcalled := False\<rparr>"

text \<open>
  Lines 226-253: what case 4 does with the resolved bit. The assignment
  \<open>rxstate = 0\<close> that \<open>add\<close> makes on a complete frame is followed by
  \<open>rxstate = 1\<close> of line 252.
\<close>

definition assemble :: "ulong \<Rightarrow> state \<Rightarrow> byte \<Rightarrow> state option" where
  "assemble now st bitState =
     (if bitState = 1 then
        (if \<not> firstZero st then Some (next_bit (st\<lparr>headerHits := headerHits st + 1\<rparr>))
         else map_option next_bit (add now st bitState))
      else
        (if headerHits st < headerBits then Some (st\<lparr>rxstate := 0\<rparr>)
         else map_option next_bit (add now (st\<lparr>firstZero := True\<rparr>) bitState)))"

definition case4 :: "reads \<Rightarrow> state \<Rightarrow> state option" where
  "case4 r st =
     (let st1 = (if pin4 r = tempBit st then st\<lparr>tempBit := tempBit st XOR 1\<rparr> else st);
          bitState = tempBit st1 XOR polarity
      in assemble (millis r) st1 bitState)"

definition case3 :: "reads \<Rightarrow> state \<Rightarrow> state option" where
  "case3 r st =
     (if micros3 r > Dstop st then case4 r (st\<lparr>rxstate := 4\<rparr>) else Some st)"

definition case2 :: "reads \<Rightarrow> state \<Rightarrow> state option" where
  "case2 r st =
     (if micros2 r > Dstop st then
        (if pin2 r \<noteq> tempBit st then Some (st\<lparr>rxstate := 0\<rparr>)
         else case3 r (st\<lparr>Dstop := Dstop st + lDelay, rxstate := 3\<rparr>))
      else Some st)"

definition case1 :: "reads \<Rightarrow> state \<Rightarrow> state option" where
  "case1 r st =
     (if pin1 r = tempBit st then case2 r (st\<lparr>Dstop := EdgeTime r + sDelay, rxstate := 2\<rparr>)
      else Some st)"

definition case0 :: "state \<Rightarrow> state" where
  "case0 st =
     st\<lparr>tempBit := polarity, firstZero := False, headerHits := 0, nosBits := 6,
        nosBytes := 0, rxstate := rxstate st + 1, isrcalled := False\<rparr>"

text \<open>The switch with its fall-through; a value of \<open>rxstate\<close> above 4 matches no case.\<close>

definition loop :: "reads \<Rightarrow> state \<Rightarrow> state option" where
  "loop r st =
     (if rxstate st = 0 then case1 r (case0 st)
      else if rxstate st = 1 then case1 r st
      else if rxstate st = 2 then case2 r st
      else if rxstate st = 3 then case3 r st
      else if rxstate st = 4 then case4 r st
      else Some st)"

subsection \<open>Feeding resolved bits\<close>

text \<open>
  One resolved bit as the assembler sees it: a pass through case 0 when the machine was
  sent back to state 0, then lines 226-253 with the bit. \<open>feed\<close> runs a sequence of
  resolved bits, each with the \<open>millis()\<close> value of its \<open>loop()\<close> call, and stops at a
  store outside \<open>manchester\<close>.
\<close>

definition bit_step :: "state \<Rightarrow> byte \<times> ulong \<Rightarrow> state option" where
  "bit_step st x =
     assemble (snd x) (if rxstate st = 0 then case0 st else st) (fst x)"

fun feed :: "state \<Rightarrow> (byte \<times> ulong) list \<Rightarrow> state option" where
  "feed st [] = Some st"
| "feed st (x # xs) = (case bit_step st x of None \<Rightarrow> None | Some st1 \<Rightarrow> feed st1 xs)"

text \<open>Resolved bits with their clock values: ones, and bits given as booleans.\<close>

definition ones :: "ulong list \<Rightarrow> (byte \<times> ulong) list" where
  "ones ts = map (\<lambda>t. (1, t)) ts"

definition bits :: "(bool \<times> ulong) list \<Rightarrow> (byte \<times> ulong) list" where
  "bits xs = map (\<lambda>(b, t). (of_bool b, t)) xs"

text \<open>
  The same at the level of \<open>loop()\<close>. \<open>resolving_reads\<close> is a set of reads under
  which one \<open>loop()\<close> call entered in state 0 or 1 runs through to case 4 and resolves
  the bit \<open>b\<close>: the pin shows the expected level in cases 1 and 2, both deadlines have
  passed, and the pin in case 4 is chosen by the bit wanted. \<open>drive\<close> calls \<open>loop()\<close>
  once per bit with these reads.
\<close>

definition resolving_reads :: "state \<Rightarrow> byte \<Rightarrow> ulong \<Rightarrow> reads" where
  "resolving_reads st b t =
     (let e = (if rxstate st = 0 then polarity else tempBit st)
      in \<lparr>pin1 = e, EdgeTime = 0, micros2 = 1000, pin2 = e, micros3 = 1000,
          pin4 = (if e XOR polarity = b then e XOR 1 else e), millis = t\<rparr>)"

fun drive :: "state \<Rightarrow> (byte \<times> ulong) list \<Rightarrow> state option" where
  "drive st [] = Some st"
| "drive st (x # xs) =
     (case loop (resolving_reads st (fst x) (snd x)) st of
        None \<Rightarrow> None
      | Some st1 \<Rightarrow> drive st1 xs)"

text \<open>A state with the two variables blanked that only cases 1 to 4 read.\<close>

definition erase :: "state \<Rightarrow> state" where
  "erase st = st\<lparr>tempBit := 0, Dstop := 0\<rparr>"

subsection \<open>Notions used in the statements\<close>

text \<open>
  What lines 261-262 make of \<open>dataByte\<close> over a run of bits: each bit is shifted in
  from the right.
\<close>

definition shift_in :: "byte \<Rightarrow> bool list \<Rightarrow> byte" where
  "shift_in d bs = foldl (\<lambda>d b. push_bit 1 d OR of_bool b) d bs"

text \<open>
  From the spec's words, "packs bits most-significant-bit first": the byte whose bit
  \<open>7 - i\<close> is the \<open>i\<close>-th of eight bits, and \<open>k\<close> bytes packed from \<open>8 * k\<close>
  consecutive bits.
\<close>

definition msb_first :: "bool list \<Rightarrow> byte" where
  "msb_first bs = horner_sum of_bool 2 (rev bs)"

primrec pack_bytes :: "nat \<Rightarrow> bool list \<Rightarrow> byte list" where
  "pack_bytes 0 bs = []"
| "pack_bytes (Suc k) bs = msb_first (take 8 bs) # pack_bytes k (drop 8 bs)"

text \<open>A run of bits that all carry the same clock value.\<close>

definition stamp :: "ulong \<Rightarrow> bool list \<Rightarrow> (bool \<times> ulong) list" where
  "stamp t bs = map (\<lambda>b. (b, t)) bs"

text \<open>
  The 48 bits of the bytes 45 4F 04 4B 0B 52 of the sample packet in the sketch's
  header comment (sensor id, rolling code, channel and temperature, humidity, checksum),
  first bit first.
\<close>

definition sample_packet :: "bool list" where
  "sample_packet =
     [False, True, False, False, False, True, False, True,
      False, True, False, False, True, True, True, True,
      False, False, False, False, False, True, False, False,
      False, True, False, False, True, False, True, True,
      False, False, False, False, True, False, True, True,
      False, True, False, True, False, False, True, False]"

text \<open>
  The payload phase between two bits: first zero seen, header long enough, case 4 left
  through lines 252-253.
\<close>

definition in_payload :: "state \<Rightarrow> bool" where
  "in_payload st \<longleftrightarrow>
     firstZero st \<and> headerBits \<le> headerHits st \<and> rxstate st = 1 \<and> \<not> isrcalled st"

text \<open>The globals of a frame attempt after \<open>n\<close> header ones.\<close>

definition after_header :: "state \<Rightarrow> nat \<Rightarrow> state" where
  "after_header st n = (case0 st)\<lparr>headerHits := of_nat n\<rparr>"

text \<open>The globals when the sixth byte has just been stored, before line 269.\<close>

definition assembled ::
  "state \<Rightarrow> nat \<Rightarrow> byte \<Rightarrow> byte \<Rightarrow> byte \<Rightarrow> byte \<Rightarrow> byte \<Rightarrow> byte \<Rightarrow> state" where
  "assembled st n b0 b1 b2 b3 b4 b5 =
     (after_header st n)\<lparr>firstZero := True, dataByte := b5, nosBits := 0,
        manchester := (manchester st)(0 := b0, 1 := b1, 2 := b2, 3 := b3, 4 := b4, 5 := b5),
        nosBytes := 6\<rparr>"

section \<open>The channel reading validator\<close>

text \<open>What the plausibility filter leaves alone and what it writes.\<close>

lemma validate_tables:
  "chLastRecv (fst (validate st c t h)) = chLastRecv st"
  "sent (fst (validate st c t h)) = sent st"
  "chTemp (fst (validate st c t h)) =
     (if snd (validate st c t h) then (chTemp st)(c := t) else chTemp st)"
  "chHum (fst (validate st c t h)) =
     (if snd (validate st c t h) then (chHum st)(c := h) else chHum st)"
  by (simp_all add: validate_def Let_def)

lemma saveReading_split:
  "0 \<le> stnId \<Longrightarrow> stnId \<le> 7 \<Longrightarrow>
   saveReading now st stnId t h =
     (if snd (validate st (nat stnId) t h) \<and> due st (nat stnId) now
      then forward (fst (validate st (nat stnId) t h)) stnId t h now
      else fst (validate st (nat stnId) t h))"
  by (simp add: saveReading_def split_def due_def validate_tables Let_def)

lemmas saveReading_run =
  saveReading_def validate_def due_def forward_def setup_state_def eraseManchester_def

text \<open>
  Claim C2, as the code has it. The stored raw temperature and raw humidity of the
  channel are overwritten exactly when the reading passes the plausibility filter
  (is marked for send), whether or not the rate limit then lets it through; the
  last-send timestamp is overwritten, and one reading is printed, exactly when the
  reading is marked for send and the rate limit lets it through. A reading the filter
  rejects therefore leaves all three stored fields as they were.
\<close>

theorem saveReading_stored_fields:
  assumes "0 \<le> stnId" and "stnId \<le> 7"
  shows "chTemp (saveReading now st stnId t h) =
           (if snd (validate st (nat stnId) t h)
            then (chTemp st)(nat stnId := t) else chTemp st)
       \<and> chHum (saveReading now st stnId t h) =
           (if snd (validate st (nat stnId) t h)
            then (chHum st)(nat stnId := h) else chHum st)
       \<and> chLastRecv (saveReading now st stnId t h) =
           (if snd (validate st (nat stnId) t h) \<and> due st (nat stnId) now
            then (chLastRecv st)(nat stnId := now) else chLastRecv st)
       \<and> sent (saveReading now st stnId t h) =
           (if snd (validate st (nat stnId) t h) \<and> due st (nat stnId) now
            then sent st @
                 [\<lparr>rd_channel = stnId + 1, rd_temp_offset = t - 720, rd_hum = h\<rparr>]
            else sent st)"
  using assms by (simp add: saveReading_split forward_def validate_tables)

text \<open>
  The theorem at a first reading 500 ms after start on channel 0: marked for send, held
  back by the rate limit, temperature and humidity stored, timestamp and output
  untouched.
\<close>

theorem saveReading_stored_fields_witness:
  "(0::int) \<le> 0 \<and> (0::int) \<le> 7
   \<and> snd (validate setup_state (nat 0) 1099 11) \<and> \<not> due setup_state (nat 0) 500
   \<and> chTemp (saveReading 500 setup_state 0 1099 11) = (chTemp setup_state)(nat 0 := 1099)
   \<and> chHum (saveReading 500 setup_state 0 1099 11) = (chHum setup_state)(nat 0 := 11)
   \<and> chLastRecv (saveReading 500 setup_state 0 1099 11) = chLastRecv setup_state
   \<and> sent (saveReading 500 setup_state 0 1099 11) = sent setup_state"
proof -
  have a: "snd (validate setup_state (nat 0) 1099 11)"
    by (simp add: saveReading_run)
  have b: "\<not> due setup_state (nat 0) 500"
    by (simp add: saveReading_run)
  show ?thesis
    using saveReading_stored_fields [of 0 500 setup_state 1099 11] a b by simp
qed

text \<open>
  Claim C2 as the spec states it fails: the first reading of channel 0, arriving 500 ms
  after start, is marked for send and suppressed by the rate limit (nothing is printed,
  the timestamp stays 0), yet the stored raw temperature changes from 720 to 1099 and
  the stored raw humidity from 0 to 11.
\<close>

theorem suppressed_reading_is_stored:
  "snd (validate setup_state 0 1099 11)
   \<and> sent (saveReading 500 setup_state 0 1099 11) = sent setup_state
   \<and> chLastRecv (saveReading 500 setup_state 0 1099 11) 0 = chLastRecv setup_state 0
   \<and> chTemp setup_state 0 = 720 \<and> chTemp (saveReading 500 setup_state 0 1099 11) 0 = 1099
   \<and> chHum setup_state 0 = 0 \<and> chHum (saveReading 500 setup_state 0 1099 11) 0 = 11"
  by (simp add: saveReading_run)

text \<open>
  Claim C3, as the code has it. A reading marked for send on channel \<open>c\<close> is forwarded
  (one reading is appended to the output) if and only if the stored last-send timestamp
  of \<open>c\<close> is greater than the current time or strictly more than 1000 ms have passed
  since it; otherwise the output is unchanged.
\<close>

theorem marked_reading_forwarded_iff:
  assumes "0 \<le> stnId" and "stnId \<le> 7" and "snd (validate st (nat stnId) t h)"
  shows "sent (saveReading now st stnId t h) =
           (if chLastRecv st (nat stnId) > now \<or> now - chLastRecv st (nat stnId) > 1000
            then sent st @
                 [\<lparr>rd_channel = stnId + 1, rd_temp_offset = t - 720, rd_hum = h\<rparr>]
            else sent st)"
  using assms by (simp add: saveReading_split forward_def validate_tables due_def)

text \<open>
  The theorem at a reading on channel 0 that arrives 1001 ms after the forward at
  5000 ms: it is forwarded.
\<close>

theorem marked_reading_forwarded_iff_witness:
  "(0::int) \<le> 0 \<and> (0::int) \<le> 7
   \<and> snd (validate (saveReading 5000 setup_state 0 1099 11) (nat 0) 1100 11)
   \<and> sent (saveReading 6001 (saveReading 5000 setup_state 0 1099 11) 0 1100 11) =
       [\<lparr>rd_channel = 1, rd_temp_offset = 379, rd_hum = 11\<rparr>,
        \<lparr>rd_channel = 1, rd_temp_offset = 380, rd_hum = 11\<rparr>]"
proof -
  have a: "snd (validate (saveReading 5000 setup_state 0 1099 11) (nat 0) 1100 11)"
    by (simp add: saveReading_run)
  have b: "chLastRecv (saveReading 5000 setup_state 0 1099 11) (nat 0) = 5000"
    by (simp add: saveReading_run)
  have c: "sent (saveReading 5000 setup_state 0 1099 11) =
             [\<lparr>rd_channel = 1, rd_temp_offset = 379, rd_hum = 11\<rparr>]"
    by (simp add: saveReading_run)
  show ?thesis
    using marked_reading_forwarded_iff
            [of 0 "saveReading 5000 setup_state 0 1099 11" 1100 11 6001] a b c
    by simp
qed

text \<open>
  Claim C3 as the spec states it fails at an elapsed time of exactly 1000 ms. The first
  reading of channel 0 is forwarded at 5000 ms; a second accepted reading at 6000 ms,
  with the stored timestamp not in the future and 1000 ms elapsed, is not forwarded.
\<close>

theorem elapsed_1000_not_forwarded:
  "sent (saveReading 5000 setup_state 0 1099 11) =
     [\<lparr>rd_channel = 1, rd_temp_offset = 379, rd_hum = 11\<rparr>]
   \<and> chLastRecv (saveReading 5000 setup_state 0 1099 11) 0 = 5000
   \<and> snd (validate (saveReading 5000 setup_state 0 1099 11) 0 1100 11)
   \<and> (6000::ulong) - chLastRecv (saveReading 5000 setup_state 0 1099 11) 0 \<ge> 1000
   \<and> sent (saveReading 6000 (saveReading 5000 setup_state 0 1099 11) 0 1100 11) =
       sent (saveReading 5000 setup_state 0 1099 11)"
  by (simp add: saveReading_run)

text \<open>
  Claim C7. On a channel in 0..7 whose stored raw temperature is not 720, a reading is
  marked for send if and only if both differences lie strictly inside their bounds:
  \<open>-20 < newTemp - chTemp[c] < 20\<close> and \<open>-5 < newHum - chHum[c] < 5\<close>. A rejected
  reading leaves the stored temperature, humidity and timestamp of every channel
  unchanged and prints nothing; \<open>saveReading\<close> returns normally in either case. An
  accepted reading is stored.
\<close>

theorem plausibility_filter:
  assumes "0 \<le> stnId" and "stnId \<le> 7" and "chTemp st (nat stnId) \<noteq> 720"
  shows "(snd (validate st (nat stnId) t h) \<longleftrightarrow>
            (- 20 < t - chTemp st (nat stnId) \<and> t - chTemp st (nat stnId) < 20
             \<and> - 5 < h - chHum st (nat stnId) \<and> h - chHum st (nat stnId) < 5))
       \<and> (\<not> snd (validate st (nat stnId) t h) \<longrightarrow>
            chTemp (saveReading now st stnId t h) = chTemp st
          \<and> chHum (saveReading now st stnId t h) = chHum st
          \<and> chLastRecv (saveReading now st stnId t h) = chLastRecv st
          \<and> sent (saveReading now st stnId t h) = sent st)
       \<and> (snd (validate st (nat stnId) t h) \<longrightarrow>
            chTemp (saveReading now st stnId t h) = (chTemp st)(nat stnId := t)
          \<and> chHum (saveReading now st stnId t h) = (chHum st)(nat stnId := h))"
proof -
  have "snd (validate st (nat stnId) t h) \<longleftrightarrow>
            (- 20 < t - chTemp st (nat stnId) \<and> t - chTemp st (nat stnId) < 20
             \<and> - 5 < h - chHum st (nat stnId) \<and> h - chHum st (nat stnId) < 5)"
    using assms(3) by (auto simp add: validate_def Let_def)
  then show ?thesis
    using assms(1,2) by (simp add: saveReading_split forward_def validate_tables)
qed

text \<open>
  The spec's example: channel 0 holds raw temperature 1000 and raw humidity 50 (stored
  by a first reading at 5000 ms). A reading of 1021 and 52 is rejected and changes
  nothing; a reading of 1019 and 52 is accepted and stored.
\<close>

theorem plausibility_filter_witness:
  "(0::int) \<le> 0 \<and> (0::int) \<le> 7
   \<and> chTemp (saveReading 5000 setup_state 0 1000 50) (nat 0) \<noteq> 720
   \<and> \<not> snd (validate (saveReading 5000 setup_state 0 1000 50) (nat 0) 1021 52)
   \<and> chTemp (saveReading 9000 (saveReading 5000 setup_state 0 1000 50) 0 1021 52) =
       chTemp (saveReading 5000 setup_state 0 1000 50)
   \<and> sent (saveReading 9000 (saveReading 5000 setup_state 0 1000 50) 0 1021 52) =
       sent (saveReading 5000 setup_state 0 1000 50)
   \<and> snd (validate (saveReading 5000 setup_state 0 1000 50) (nat 0) 1019 52)
   \<and> chTemp (saveReading 9000 (saveReading 5000 setup_state 0 1000 50) 0 1019 52) =
       (chTemp (saveReading 5000 setup_state 0 1000 50))(nat 0 := 1019)"
proof -
  have a: "chTemp (saveReading 5000 setup_state 0 1000 50) (nat 0) = 1000"
    by (simp add: saveReading_run)
  have b: "chHum (saveReading 5000 setup_state 0 1000 50) (nat 0) = 50"
    by (simp add: saveReading_run)
  show ?thesis
    using plausibility_filter [of 0 "saveReading 5000 setup_state 0 1000 50" 1021 52 9000]
          plausibility_filter [of 0 "saveReading 5000 setup_state 0 1000 50" 1019 52 9000]
          a b
    by simp
qed

text \<open>
  Claim C8. On a channel in 0..7 whose stored raw temperature is the sentinel 720, every
  reading, whatever its raw temperature and humidity, is marked for send and stored as
  the channel's temperature and humidity.
\<close>

theorem sentinel_accepts:
  assumes "0 \<le> stnId" and "stnId \<le> 7" and "chTemp st (nat stnId) = 720"
  shows "snd (validate st (nat stnId) t h)
       \<and> chTemp (saveReading now st stnId t h) = (chTemp st)(nat stnId := t)
       \<and> chHum (saveReading now st stnId t h) = (chHum st)(nat stnId := h)"
proof -
  have "snd (validate st (nat stnId) t h)"
    using assms(3) by (simp add: validate_def)
  then show ?thesis
    using assms(1,2) by (simp add: saveReading_split forward_def validate_tables)
qed

theorem sentinel_accepts_witness:
  "(0::int) \<le> 3 \<and> (3::int) \<le> 7 \<and> chTemp setup_state (nat 3) = 720
   \<and> snd (validate setup_state (nat 3) 2047 100)
   \<and> chTemp (saveReading 5000 setup_state 3 2047 100) = (chTemp setup_state)(nat 3 := 2047)
   \<and> chHum (saveReading 5000 setup_state 3 2047 100) = (chHum setup_state)(nat 3 := 100)"
proof -
  have a: "chTemp setup_state (nat 3) = 720"
    by (simp add: setup_state_def eraseManchester_def)
  show ?thesis
    using sentinel_accepts [of 3 setup_state 2047 100 5000] a by simp
qed

section \<open>The frame interpreter\<close>

text \<open>The two masks of lines 275 and 281 as bit fields.\<close>

lemma mask70: "(0x70 :: byte) = push_bit 4 (mask 3)"
  by (simp add: mask_eq_exp_minus_1)

lemma mask7: "(0x07 :: byte) = mask 3"
  by (simp add: mask_eq_exp_minus_1)

lemma stn_word: "drop_bit 4 ((w::byte) AND 0x70) = take_bit 3 (drop_bit 4 w)"
  unfolding mask70
  by (rule bit_eqI) (auto simp add: bit_simps)

lemma stnId_field: "frame_stnId m = uint (take_bit 3 (drop_bit 4 (m 3)))"
proof -
  have "uint (m 3 AND 0x70) div 16 = uint (drop_bit 4 (m 3 AND 0x70))"
    by (simp add: drop_bit_eq_div uint_div)
  then show ?thesis
    unfolding frame_stnId_def by (simp only: stn_word)
qed

lemma stnId_range: "0 \<le> frame_stnId m \<and> frame_stnId m \<le> 7"
proof -
  have "uint (take_bit 3 (drop_bit 4 (m 3))) < 2 ^ 3"
    unfolding unsigned_take_bit_eq by (rule take_bit_int_less_exp)
  then show ?thesis by (simp add: stnId_field)
qed

lemma temp_field: "frame_Newtemp m = concat_bit 8 (uint (m 4)) (uint (take_bit 3 (m 3)))"
proof -
  have a: "m 3 AND 0x07 = take_bit 3 (m 3)"
    unfolding mask7 by (simp add: take_bit_eq_mask)
  have b: "take_bit 8 (uint (m 4)) = uint (m 4)"
    by (simp add: take_bit_int_eq_self_iff uint_lt2p [where 'a=8, simplified])
  show ?thesis
    unfolding frame_Newtemp_def a
    by (simp add: concat_bit_eq b push_bit_eq_mult)
qed

lemma temp_range: "0 \<le> frame_Newtemp m \<and> frame_Newtemp m < 2 ^ 12 \<and> frame_Newtemp m \<le> 2047"
proof -
  have "uint (m 3 AND 0x07) \<le> uint (0x07 :: byte)"
    by (rule word_and_le1 [THEN word_le_def [THEN iffD1]])
  moreover have "uint (m 4) < 256"
    using uint_lt2p [of "m 4"] by simp
  ultimately show ?thesis
    by (simp add: frame_Newtemp_def)
qed

lemma extract_fields:
  "dataType (interpret_frame now st) = uint (manchester st 1)"
  "Newtemp (interpret_frame now st) = frame_Newtemp (manchester st)"
  "Newhum (interpret_frame now st) = uint (manchester st 5)"
  by (simp_all add: interpret_frame_def Let_def saveReading_def validate_def forward_def
        frame_dataType_def frame_Newhum_def split: prod.splits)

lemma gate_word: "uint (b1::byte) = 0x45 \<and> uint (b5::byte) \<le> 100 \<longleftrightarrow> b1 = 0x45 \<and> b5 \<le> 100"
  by (simp add: word_le_def word_uint_eq_iff)

section \<open>The header and frame assembler\<close>

subsection \<open>Shifting bits into \<open>dataByte\<close>\<close>

lemma shift_in_snoc: "shift_in d (bs @ [b]) = push_bit 1 (shift_in d bs) OR of_bool b"
  by (simp add: shift_in_def)

lemma bit_shift_step:
  "bit (push_bit 1 (x::byte) OR of_bool b) n \<longleftrightarrow> (if n = 0 then b else n < 8 \<and> bit x (n - 1))"
  unfolding bit_or_iff bit_push_bit_iff bit_of_bool_iff
  by (auto simp add: possible_bit_word)

lemma bit_shift_in:
  "bit (shift_in d bs) n \<longleftrightarrow>
     n < 8 \<and> (if n < length bs then bs ! (length bs - Suc n) else bit d (n - length bs))"
proof (induction bs arbitrary: n rule: rev_induct)
  case Nil
  then show ?case by (auto simp add: shift_in_def dest: bit_imp_le_length)
next
  case (snoc b bs)
  show ?case
    unfolding shift_in_snoc bit_shift_step snoc.IH
    by (cases n) (auto simp add: nth_append)
qed

lemma shift_in_8: "length bs = 8 \<Longrightarrow> shift_in d bs = msb_first bs"
  by (rule bit_eqI) (auto simp add: bit_shift_in msb_first_def bit_simps rev_nth)

lemma feed_append:
  "feed st (xs @ ys) = (case feed st xs of None \<Rightarrow> None | Some s \<Rightarrow> feed s ys)"
  by (induction xs arbitrary: st) (auto split: option.splits)

lemma next_bit_idle: "rxstate st = 1 \<Longrightarrow> \<not> isrcalled st \<Longrightarrow> next_bit st = st"
  by (cases st) (simp add: next_bit_def)

lemma firstZero_idle: "firstZero st \<Longrightarrow> st\<lparr>firstZero := True\<rparr> = st"
  by (cases st) simp

lemma payload_step:
  assumes "in_payload st"
  shows "bit_step st (of_bool b, t) = map_option next_bit (add t st (of_bool b))"
  using assms
  by (cases b) (simp_all add: in_payload_def bit_step_def assemble_def firstZero_idle not_less [symmetric])

lemma unat_succ_small: "unat (w::byte) < 255 \<Longrightarrow> unat (w + 1) = Suc (unat w)"
  by (simp add: unat_word_ariths)

lemma succ_neq_8: "unat (w::byte) < 7 \<Longrightarrow> w + 1 \<noteq> 8"
proof
  assume a: "unat w < 7" and e: "w + 1 = 8"
  have "unat (w + 1) = Suc (unat w)"
    using a by (simp add: unat_succ_small)
  then show False using a e by simp
qed

lemma succ_neq_6: "unat (w::byte) < 5 \<Longrightarrow> w + 1 \<noteq> 6"
proof
  assume a: "unat w < 5" and e: "w + 1 = 6"
  have "unat (w + 1) = Suc (unat w)"
    using a by (simp add: unat_succ_small)
  then show False using a e by simp
qed

lemma add_shift:
  "unat (nosBits st) < 7 \<Longrightarrow> nosBytes st \<noteq> maxBytes \<Longrightarrow>
   add t st b = Some (st\<lparr>dataByte := push_bit 1 (dataByte st) OR b, nosBits := nosBits st + 1\<rparr>)"
  using succ_neq_8 [of "nosBits st"]
  by (simp add: add_def store_bit_def Let_def)

lemma add_store:
  "nosBits st = 7 \<Longrightarrow> unat (nosBytes st) < 5 \<Longrightarrow>
   add t st b = Some (st\<lparr>dataByte := push_bit 1 (dataByte st) OR b, nosBits := 0,
       manchester := (manchester st)(unat (nosBytes st) := push_bit 1 (dataByte st) OR b),
       nosBytes := nosBytes st + 1\<rparr>)"
  using succ_neq_6 [of "nosBytes st"]
  by (simp add: add_def store_bit_def Let_def manchester_size_def maxBytes_def)

lemma add_complete:
  "nosBits st = 7 \<Longrightarrow> nosBytes st = 5 \<Longrightarrow>
   add t st b = Some (interpret_frame t (st\<lparr>dataByte := push_bit 1 (dataByte st) OR b, nosBits := 0,
       manchester := (manchester st)(5 := push_bit 1 (dataByte st) OR b),
       nosBytes := 6\<rparr>))"
  by (simp add: add_def store_bit_def Let_def manchester_size_def maxBytes_def)

lemma bits_Cons: "bits ((b, t) # xs) = (of_bool b, t) # bits xs"
  by (simp add: bits_def)

lemma feed_shift:
  assumes "in_payload st" and "unat (nosBits st) + length xs < 8" and "nosBytes st \<noteq> maxBytes"
  shows "feed st (bits xs) =
           Some (st\<lparr>dataByte := shift_in (dataByte st) (map fst xs),
                    nosBits := nosBits st + of_nat (length xs)\<rparr>)"
  using assms
proof (induction xs arbitrary: st)
  case Nil
  then show ?case by (simp add: bits_def shift_in_def)
next
  case (Cons x xs)
  obtain b t where x: "x = (b, t)" by (cases x)
  define st1 where "st1 = st\<lparr>dataByte := push_bit 1 (dataByte st) OR of_bool b,
                               nosBits := nosBits st + 1\<rparr>"
  have small: "unat (nosBits st) < 7" using Cons.prems(2) by simp
  have idle: "next_bit st1 = st1"
    using Cons.prems(1) by (intro next_bit_idle) (simp_all add: st1_def in_payload_def)
  have step: "bit_step st (of_bool b, t) = Some st1"
    using Cons.prems small idle
    by (simp add: payload_step add_shift st1_def)
  have p1: "in_payload st1"
    using Cons.prems(1) by (simp add: st1_def in_payload_def)
  have n1: "unat (nosBits st1) + length xs < 8"
    using Cons.prems(2) small by (simp add: st1_def unat_succ_small)
  have b1: "nosBytes st1 \<noteq> maxBytes"
    using Cons.prems(3) by (simp add: st1_def)
  show ?case
    by (simp add: x bits_Cons step Cons.IH [OF p1 n1 b1]) (simp add: st1_def shift_in_def add.assoc)
qed

lemma bits_append: "bits (xs @ ys) = bits xs @ bits ys"
  by (simp add: bits_def)

lemma bits_snoc: "bits (xs @ [(b, t)]) = bits xs @ [(of_bool b, t)]"
  by (simp add: bits_def)

lemma map_fst_snoc: "xs \<noteq> [] \<Longrightarrow> map fst xs = map fst (butlast xs) @ [fst (last xs)]"
  by (induction xs) auto

lemma shift_in_last:
  assumes "length xs = 8"
  shows "push_bit 1 (shift_in d (map fst (butlast xs))) OR of_bool (fst (last xs))
           = msb_first (map fst xs)"
proof -
  from assms have ne: "xs \<noteq> []" by auto
  have "shift_in d (map fst xs) = shift_in d (map fst (butlast xs) @ [fst (last xs)])"
    using map_fst_snoc [OF ne] by simp
  then show ?thesis
    using assms by (simp only: shift_in_snoc shift_in_8 length_map)
qed

lemma feed_single: "feed st [x] = bit_step st x"
  by (simp split: option.splits)

lemma feed_7_then:
  assumes "in_payload st" and "nosBits st = 0" and "nosBytes st \<noteq> maxBytes"
    and "length xs = 8"
  shows "feed st (bits xs) =
           map_option next_bit
             (add (snd (last xs))
                  (st\<lparr>dataByte := shift_in (dataByte st) (map fst (butlast xs)), nosBits := 7\<rparr>)
                  (of_bool (fst (last xs))))"
proof -
  from assms(4) have ne: "xs \<noteq> []" by auto
  define ys where "ys = butlast xs"
  obtain b t where l: "last xs = (b, t)" by (cases "last xs")
  have xs: "xs = ys @ [(b, t)]"
    using append_butlast_last_id [OF ne] l by (simp add: ys_def)
  have len: "length ys = 7" using assms(4) by (simp add: ys_def)
  define st2 where "st2 = st\<lparr>dataByte := shift_in (dataByte st) (map fst ys), nosBits := 7\<rparr>"
  have a: "feed st (bits ys) = Some st2"
    using feed_shift [of st ys] assms(1,2,3) len by (simp add: st2_def)
  have p2: "in_payload st2"
    using assms(1) by (simp add: st2_def in_payload_def)
  have "feed st (bits xs) = feed st2 [(of_bool b, t)]"
    by (simp only: xs bits_snoc feed_append a option.case)
  also have "\<dots> = bit_step st2 (of_bool b, t)"
    by (rule feed_single)
  also have "\<dots> = map_option next_bit (add t st2 (of_bool b))"
    by (rule payload_step [OF p2])
  finally show ?thesis
    by (simp add: st2_def l ys_def)
qed

lemma feed_byte:
  assumes "in_payload st" and "nosBits st = 0" and "unat (nosBytes st) < 5"
    and "length xs = 8"
  shows "feed st (bits xs) =
           Some (st\<lparr>dataByte := msb_first (map fst xs), nosBits := 0,
                    manchester := (manchester st)(unat (nosBytes st) := msb_first (map fst xs)),
                    nosBytes := nosBytes st + 1\<rparr>)"
proof -
  from assms(4) have ne: "xs \<noteq> []" by auto
  have nb: "nosBytes st \<noteq> maxBytes"
    using assms(3) by (auto simp add: maxBytes_def)
  have sh: "push_bit 1 (shift_in (dataByte st) (map fst (butlast xs))) OR of_bool (fst (last xs))
              = msb_first (map fst xs)"
    using assms(4) by (rule shift_in_last)
  define st3 where "st3 = st\<lparr>dataByte := msb_first (map fst xs), nosBits := 0,
                    manchester := (manchester st)(unat (nosBytes st) := msb_first (map fst xs)),
                    nosBytes := nosBytes st + 1\<rparr>"
  have idle: "next_bit st3 = st3"
    using assms(1) by (intro next_bit_idle) (simp_all add: st3_def in_payload_def)
  have "feed st (bits xs) = Some (next_bit st3)"
    unfolding feed_7_then [OF assms(1,2) nb assms(4)]
    using assms(3) sh by (simp add: add_store st3_def)
  then show ?thesis
    unfolding idle by (simp only: st3_def)
qed

lemma feed_last_byte:
  assumes "in_payload st" and "nosBits st = 0" and "nosBytes st = 5"
    and "length xs = 8"
  shows "feed st (bits xs) =
           Some (next_bit (interpret_frame (snd (last xs))
                   (st\<lparr>dataByte := msb_first (map fst xs), nosBits := 0,
                       manchester := (manchester st)(5 := msb_first (map fst xs)),
                       nosBytes := 6\<rparr>)))"
proof -
  from assms(4) have ne: "xs \<noteq> []" by auto
  have nb: "nosBytes st \<noteq> maxBytes"
    using assms(3) by (simp add: maxBytes_def)
  have sh: "push_bit 1 (shift_in (dataByte st) (map fst (butlast xs))) OR of_bool (fst (last xs))
              = msb_first (map fst xs)"
    using assms(4) by (rule shift_in_last)
  show ?thesis
    unfolding feed_7_then [OF assms(1,2) nb assms(4)]
    using assms(3) sh by (simp add: add_complete)
qed

lemma header_step:
  "\<not> firstZero st \<Longrightarrow> rxstate st \<noteq> 0 \<Longrightarrow>
   bit_step st (1, t) = Some (next_bit (st\<lparr>headerHits := headerHits st + 1\<rparr>))"
  by (simp add: bit_step_def assemble_def)

lemma feed_ones:
  assumes "\<not> firstZero st" and "rxstate st = 1" and "\<not> isrcalled st"
  shows "feed st (ones ts) = Some (st\<lparr>headerHits := headerHits st + of_nat (length ts)\<rparr>)"
  using assms
proof (induction ts arbitrary: st)
  case Nil
  then show ?case by (simp add: ones_def)
next
  case (Cons t ts)
  define st1 where "st1 = st\<lparr>headerHits := headerHits st + 1\<rparr>"
  have idle: "next_bit st1 = st1"
    using Cons.prems by (intro next_bit_idle) (simp_all add: st1_def)
  have step: "bit_step st (1, t) = Some st1"
    using Cons.prems idle by (simp add: header_step st1_def)
  have "feed st1 (ones ts) = Some (st1\<lparr>headerHits := headerHits st1 + of_nat (length ts)\<rparr>)"
    using Cons.prems by (intro Cons.IH) (simp_all add: st1_def)
  then show ?case
    using step by (simp add: ones_def st1_def add.assoc)
qed

lemma feed_start: "rxstate st = 0 \<Longrightarrow> xs \<noteq> [] \<Longrightarrow> feed st xs = feed (case0 st) xs"
  by (cases xs) (simp_all add: bit_step_def case0_def)

lemma premature_zero:
  "rxstate st \<noteq> 0 \<Longrightarrow> headerHits st < headerBits \<Longrightarrow>
   bit_step st (0, t) = Some (st\<lparr>rxstate := 0\<rparr>)"
  by (simp add: bit_step_def assemble_def)

lemma first_zero:
  "rxstate st \<noteq> 0 \<Longrightarrow> \<not> headerHits st < headerBits \<Longrightarrow>
   bit_step st (0, t) = map_option next_bit (add t (st\<lparr>firstZero := True\<rparr>) 0)"
  by (simp add: bit_step_def assemble_def)

lemma hits_small: "n < 10 \<Longrightarrow> (of_nat n :: byte) < headerBits"
  by (simp add: headerBits_def word_less_nat_alt unat_of_nat)

lemma hits_enough: "10 \<le> n \<Longrightarrow> n < 256 \<Longrightarrow> \<not> (of_nat n :: byte) < headerBits"
  by (simp add: headerBits_def word_less_nat_alt unat_of_nat)

lemma feed_header:
  assumes "rxstate st = 0" and "rest \<noteq> []"
  shows "feed st (ones ts @ rest) = feed (after_header st (length ts)) rest"
proof -
  have "feed st (ones ts @ rest) = feed (case0 st) (ones ts @ rest)"
    using assms by (intro feed_start) simp_all
  moreover have "feed (case0 st) (ones ts) = Some (after_header st (length ts))"
    using assms(1) feed_ones [of "case0 st" ts] by (simp add: case0_def after_header_def)
  ultimately show ?thesis
    by (simp add: feed_append)
qed

lemma feed_sync:
  assumes "rxstate st = 0" and "10 \<le> n" and "n < 256"
  shows "feed (after_header st n) (bits [(False, t0), (b, t1)]) =
           Some ((after_header st n)\<lparr>firstZero := True,
                   dataByte := shift_in (dataByte st) [False, b], nosBits := 0,
                   manchester := (manchester st)(0 := shift_in (dataByte st) [False, b]),
                   nosBytes := 1\<rparr>)"
proof -
  define h where "h = after_header st n"
  define s1 where "s1 = h\<lparr>firstZero := True, dataByte := push_bit 1 (dataByte st) OR 0, nosBits := 7\<rparr>"
  have h: "rxstate h = 1" "\<not> isrcalled h" "nosBits h = 6" "nosBytes h = 0"
    "dataByte h = dataByte st" "manchester h = manchester st" "headerHits h = of_nat n"
    using assms(1) by (simp_all add: h_def after_header_def case0_def)
  have idle: "next_bit s1 = s1"
    using h by (intro next_bit_idle) (simp_all add: s1_def)
  have "add t0 (h\<lparr>firstZero := True\<rparr>) 0 = Some s1"
    using h by (simp add: add_shift s1_def maxBytes_def)
  then have z: "bit_step h (0, t0) = Some s1"
    using h hits_enough [OF assms(2,3)] idle by (simp add: first_zero)
  have p1: "in_payload s1"
    using h hits_enough [OF assms(2,3)] by (simp add: s1_def in_payload_def not_less)
  define s2 where "s2 = s1\<lparr>dataByte := push_bit 1 (dataByte s1) OR of_bool b, nosBits := 0,
       manchester := (manchester s1)(unat (nosBytes s1) := push_bit 1 (dataByte s1) OR of_bool b),
       nosBytes := nosBytes s1 + 1\<rparr>"
  have idle2: "next_bit s2 = s2"
    using h by (intro next_bit_idle) (simp_all add: s2_def s1_def)
  have "add t1 s1 (of_bool b) = Some s2"
    unfolding s2_def using h by (intro add_store) (simp_all add: s1_def)
  then have y: "bit_step s1 (of_bool b, t1) = Some s2"
    using idle2 by (simp add: payload_step [OF p1])
  have "feed h (bits [(False, t0), (b, t1)]) = Some s2"
    using z y by (simp add: bits_def)
  then show ?thesis
    unfolding h_def [symmetric]
    using h by (simp add: s2_def s1_def shift_in_def)
qed

lemma feed_packet:
  assumes "rxstate st = 0" and "10 \<le> length ts" and "length ts < 256"
    and "length p1 = 8" and "length p2 = 8" and "length p3 = 8" and "length p4 = 8"
    and "length p5 = 8"
  shows "feed st (ones ts @ bits ((False, t0) # (b, t1) # p1 @ p2 @ p3 @ p4 @ p5)) =
           Some (next_bit (interpret_frame (snd (last p5))
                  (assembled st (length ts) (shift_in (dataByte st) [False, b])
                     (msb_first (map fst p1)) (msb_first (map fst p2)) (msb_first (map fst p3))
                     (msb_first (map fst p4)) (msb_first (map fst p5)))))"
proof -
  define n where "n = length ts"
  define h where "h = after_header st n"
  define b0 where "b0 = shift_in (dataByte st) [False, b]"
  define s1 where "s1 = h\<lparr>firstZero := True, dataByte := b0, nosBits := 0,
                          manchester := (manchester st)(0 := b0), nosBytes := 1\<rparr>"
  define s2 where "s2 = s1\<lparr>dataByte := msb_first (map fst p1), nosBits := 0,
                          manchester := (manchester s1)(1 := msb_first (map fst p1)), nosBytes := 2\<rparr>"
  define s3 where "s3 = s2\<lparr>dataByte := msb_first (map fst p2), nosBits := 0,
                          manchester := (manchester s2)(2 := msb_first (map fst p2)), nosBytes := 3\<rparr>"
  define s4 where "s4 = s3\<lparr>dataByte := msb_first (map fst p3), nosBits := 0,
                          manchester := (manchester s3)(3 := msb_first (map fst p3)), nosBytes := 4\<rparr>"
  define s5 where "s5 = s4\<lparr>dataByte := msb_first (map fst p4), nosBits := 0,
                          manchester := (manchester s4)(4 := msb_first (map fst p4)), nosBytes := 5\<rparr>"
  have hh: "headerBits \<le> headerHits h" "rxstate h = 1" "\<not> isrcalled h"
    using assms(1) hits_enough [OF assms(2,3)]
    by (simp_all add: h_def n_def after_header_def case0_def not_less)
  have pay: "in_payload s1" "in_payload s2" "in_payload s3" "in_payload s4" "in_payload s5"
    using hh by (simp_all add: in_payload_def s1_def s2_def s3_def s4_def s5_def)
  have f0: "feed st (ones ts @ bits ((False, t0) # (b, t1) # p1 @ p2 @ p3 @ p4 @ p5)) =
              feed h (bits [(False, t0), (b, t1)] @ bits p1 @ bits p2 @ bits p3 @ bits p4 @ bits p5)"
    using feed_header [OF assms(1), of "bits ((False, t0) # (b, t1) # p1 @ p2 @ p3 @ p4 @ p5)" ts]
    by (simp add: bits_def h_def n_def)
  have f1: "feed h (bits [(False, t0), (b, t1)]) = Some s1"
    using feed_sync [OF assms(1,2,3), of t0 b t1] by (simp add: s1_def h_def n_def b0_def)
  have f2: "feed s1 (bits p1) = Some s2"
    using feed_byte [OF pay(1) _ _ assms(4)] by (simp add: s1_def s2_def)
  have f3: "feed s2 (bits p2) = Some s3"
    using feed_byte [OF pay(2) _ _ assms(5)] by (simp add: s2_def s3_def)
  have f4: "feed s3 (bits p3) = Some s4"
    using feed_byte [OF pay(3) _ _ assms(6)] by (simp add: s3_def s4_def)
  have f5: "feed s4 (bits p4) = Some s5"
    using feed_byte [OF pay(4) _ _ assms(7)] by (simp add: s4_def s5_def)
  have f6: "feed s5 (bits p5) =
              Some (next_bit (interpret_frame (snd (last p5))
                (s5\<lparr>dataByte := msb_first (map fst p5), nosBits := 0,
                    manchester := (manchester s5)(5 := msb_first (map fst p5)), nosBytes := 6\<rparr>)))"
    using feed_last_byte [OF pay(5) _ _ assms(8)] by (simp add: s5_def)
  have fin: "s5\<lparr>dataByte := msb_first (map fst p5), nosBits := 0,
                manchester := (manchester s5)(5 := msb_first (map fst p5)), nosBytes := 6\<rparr> =
             assembled st n b0 (msb_first (map fst p1)) (msb_first (map fst p2))
               (msb_first (map fst p3)) (msb_first (map fst p4)) (msb_first (map fst p5))"
    by (simp add: assembled_def s5_def s4_def s3_def s2_def s1_def h_def)
  show ?thesis
    unfolding f0 n_def [symmetric] b0_def [symmetric]
    by (simp only: feed_append f1 f2 f3 f4 f5 f6 fin option.case)
qed

lemma handed_saveReading: "handed (saveReading now st c t h) = handed st"
  by (simp add: saveReading_def validate_def forward_def Let_def split: prod.splits)

lemma handed_interpret_frame:
  "handed (interpret_frame now st) = handed st @ [map (manchester st) [0..<6]]"
  by (simp add: interpret_frame_def Let_def handed_saveReading del: upt_rec_numeral)

lemma manchester_saveReading: "manchester (saveReading now st c t h) = manchester st"
  by (simp add: saveReading_def validate_def forward_def Let_def split: prod.splits)

lemma manchester_interpret_frame: "manchester (interpret_frame now st) = manchester st"
  by (simp add: interpret_frame_def Let_def manchester_saveReading)

lemma upt_6: "[0..<6] = [0, 1, 2, 3, 4, 5]"
  by code_simp

lemma frame_of_assembled:
  "map (manchester (assembled st n b0 b1 b2 b3 b4 b5)) [0..<6] = [b0, b1, b2, b3, b4, b5]"
  by (simp add: assembled_def upt_6 del: upt_rec_numeral)

lemma sync_byte: "shift_in d [False, b] = push_bit 2 d OR of_bool b"
  by (simp add: shift_in_def push_bit_eq_mult mult.commute)

lemma pack_bytes_5:
  assumes "length bs = 40"
  shows "pack_bytes 5 bs =
           [msb_first (take 8 bs), msb_first (take 8 (drop 8 bs)), msb_first (take 8 (drop 16 bs)),
            msb_first (take 8 (drop 24 bs)), msb_first (drop 32 bs)]"
  using assms by (simp add: numeral_eq_Suc) 

lemma split_40:
  "xs = take 8 xs @ take 8 (drop 8 xs) @ take 8 (drop 16 xs) @ take 8 (drop 24 xs) @ drop 32 xs"
proof -
  have a: "take 8 (drop k xs) @ drop (k + 8) xs = drop k xs" for k
    using append_take_drop_id [of 8 "drop k xs"] by (simp add: add.commute)
  show ?thesis
    using a [of 0] a [of 8] a [of 16] a [of 24] by simp
qed

lemma handed_packet:
  assumes "rxstate st = 0" and "10 \<le> length ts" and "length ts < 256" and "length p = 40"
  shows "map_option handed (feed st (ones ts @ bits ((False, t0) # (b, t1) # p))) =
           Some (handed st @ [(push_bit 2 (dataByte st) OR of_bool b) # pack_bytes 5 (map fst p)])"
proof -
  define p1 where "p1 = take 8 p"
  define p2 where "p2 = take 8 (drop 8 p)"
  define p3 where "p3 = take 8 (drop 16 p)"
  define p4 where "p4 = take 8 (drop 24 p)"
  define p5 where "p5 = drop 32 p"
  have p: "p = p1 @ p2 @ p3 @ p4 @ p5"
    unfolding p1_def p2_def p3_def p4_def p5_def by (rule split_40)
  have len: "length p1 = 8" "length p2 = 8" "length p3 = 8" "length p4 = 8" "length p5 = 8"
    using assms(4) by (simp_all add: p1_def p2_def p3_def p4_def p5_def)
  have pk: "pack_bytes 5 (map fst p) =
              [msb_first (map fst p1), msb_first (map fst p2), msb_first (map fst p3),
               msb_first (map fst p4), msb_first (map fst p5)]"
    using assms(4)
    by (simp add: pack_bytes_5 p1_def p2_def p3_def p4_def p5_def take_map drop_map)
  have h: "handed (assembled st n b0 b1 b2 b3 b4 b5) = handed st" for n b0 b1 b2 b3 b4 b5
    by (simp add: assembled_def after_header_def case0_def)
  have f: "feed st (ones ts @ bits ((False, t0) # (b, t1) # p)) =
             Some (next_bit (interpret_frame (snd (last p5))
                  (assembled st (length ts) (shift_in (dataByte st) [False, b])
                     (msb_first (map fst p1)) (msb_first (map fst p2)) (msb_first (map fst p3))
                     (msb_first (map fst p4)) (msb_first (map fst p5)))))"
    by (subst p) (rule feed_packet [OF assms(1,2,3) len])
  show ?thesis
    unfolding f pk
    by (simp add: next_bit_def handed_interpret_frame frame_of_assembled sync_byte h
          del: upt_rec_numeral)
qed

lemma feed_premature:
  assumes "rxstate st = 0" and "length hs < 10"
  shows "feed st (ones hs @ [(0, tz)]) =
           Some ((case0 st)\<lparr>headerHits := of_nat (length hs), rxstate := 0\<rparr>)"
proof -
  have a: "rxstate (after_header st (length hs)) \<noteq> 0"
    using assms(1) by (simp add: after_header_def case0_def)
  have b: "headerHits (after_header st (length hs)) < headerBits"
    using hits_small [OF assms(2)] by (simp add: after_header_def)
  show ?thesis
    unfolding feed_header [OF assms(1), of "[(0, tz)]" hs, simplified]
    using premature_zero [OF a b, of tz] by (simp add: after_header_def)
qed

lemma case0_after_premature:
  "rxstate st = 0 \<Longrightarrow> case0 ((case0 st)\<lparr>headerHits := n, rxstate := 0\<rparr>) = case0 st"
  by (simp add: case0_def)

subsection \<open>One \<open>loop()\<close> call that resolves a bit\<close>

text \<open>
  \<open>saveReading\<close> neither reads nor writes the synchronizer's variables, so a step of the
  assembler carries \<open>tempBit\<close> and \<open>Dstop\<close> through and overwrites \<open>rxstate\<close>.
\<close>

lemma saveReading_indep:
  "(saveReading now s c t h)\<lparr>tempBit := a\<rparr> = saveReading now (s\<lparr>tempBit := a\<rparr>) c t h"
  "(saveReading now s c t h)\<lparr>Dstop := d\<rparr> = saveReading now (s\<lparr>Dstop := d\<rparr>) c t h"
  "(saveReading now s c t h)\<lparr>rxstate := x\<rparr> = saveReading now (s\<lparr>rxstate := x\<rparr>) c t h"
  "(saveReading now s c t h)\<lparr>isrcalled := i\<rparr> = saveReading now (s\<lparr>isrcalled := i\<rparr>) c t h"
  by (simp_all add: saveReading_def validate_def forward_def due_def Let_def)

lemma assemble_passes:
  "assemble now (s\<lparr>tempBit := a, Dstop := d, rxstate := x\<rparr>) b =
     map_option (\<lambda>s'. s'\<lparr>tempBit := a, Dstop := d\<rparr>) (assemble now s b)"
  by (cases s)
    (simp add: assemble_def add_def store_bit_def interpret_frame_def next_bit_def Let_def
       saveReading_indep del: upt_rec_numeral)

text \<open>
  A \<open>loop()\<close> call entered in state 0 or 1 whose reads pass every check (the pin shows
  the expected level in cases 1 and 2, both deadlines have passed) runs through to case
  4, and what it does there is \<open>bit_step\<close> with the bit that case 4 resolves; only
  \<open>tempBit\<close> and \<open>Dstop\<close> differ.
\<close>

lemma loop_resolves_bit:
  assumes "rxstate st = 0 \<or> rxstate st = 1"
    and "s0 = (if rxstate st = 0 then case0 st else st)"
    and "pin1 r = tempBit s0" and "EdgeTime r + sDelay < micros2 r"
    and "pin2 r = tempBit s0" and "EdgeTime r + sDelay + lDelay < micros3 r"
    and "tb = (if pin4 r = tempBit s0 then tempBit s0 XOR 1 else tempBit s0)"
  shows "loop r st =
           map_option (\<lambda>s. s\<lparr>tempBit := tb, Dstop := EdgeTime r + sDelay + lDelay\<rparr>)
             (bit_step st (tb XOR polarity, millis r))"
proof -
  have l: "loop r st = case1 r s0"
    using assms(1,2) by (auto simp add: loop_def case0_def)
  have "case1 r s0 =
          assemble (millis r)
            (s0\<lparr>tempBit := tb, Dstop := EdgeTime r + sDelay + lDelay, rxstate := 4\<rparr>)
            (tb XOR polarity)"
    using assms(3-7)
    by (cases s0) (simp add: case1_def case2_def case3_def case4_def Let_def)
  also have "\<dots> = map_option (\<lambda>s. s\<lparr>tempBit := tb, Dstop := EdgeTime r + sDelay + lDelay\<rparr>)
                     (assemble (millis r) s0 (tb XOR polarity))"
    by (rule assemble_passes)
  finally show ?thesis
    using l assms(2) by (simp add: bit_step_def)
qed

lemma bit01: "(b::byte) = 0 \<or> b = 1 \<Longrightarrow> (e::byte) = 0 \<or> e = 1 \<Longrightarrow>
   (if (if e XOR 1 = b then e XOR 1 else e) = e then e XOR 1 else e) XOR 1 = b"
  by auto

lemma loop_drives_bit:
  assumes "rxstate st = 0 \<or> rxstate st = 1" and "tempBit st = 0 \<or> tempBit st = 1"
    and "b = 0 \<or> b = 1"
  shows "\<exists>tb. (tb = 0 \<or> tb = 1) \<and>
           loop (resolving_reads st b t) st =
             map_option (\<lambda>s. s\<lparr>tempBit := tb, Dstop := 726\<rparr>) (bit_step st (b, t))"
proof -
  define s0 where "s0 = (if rxstate st = 0 then case0 st else st)"
  define r where "r = resolving_reads st b t"
  define tb where "tb = (if pin4 r = tempBit s0 then tempBit s0 XOR 1 else tempBit s0)"
  have e: "tempBit s0 = (if rxstate st = 0 then polarity else tempBit st)"
    by (simp add: s0_def case0_def)
  have e01: "tempBit s0 = 0 \<or> tempBit s0 = 1"
    using assms(2) by (auto simp add: e polarity_def)
  have r: "pin1 r = tempBit s0" "pin2 r = tempBit s0" "EdgeTime r = 0" "micros2 r = 1000"
    "micros3 r = 1000" "millis r = t"
    "pin4 r = (if tempBit s0 XOR polarity = b then tempBit s0 XOR 1 else tempBit s0)"
    by (simp_all add: r_def resolving_reads_def Let_def e)
  have tb: "tb XOR polarity = b"
    unfolding tb_def r(7) polarity_def using assms(3) e01 by (rule bit01)
  have tb01: "tb = 0 \<or> tb = 1"
    using e01 by (auto simp add: tb_def)
  have "loop r st =
           map_option (\<lambda>s. s\<lparr>tempBit := tb, Dstop := EdgeTime r + sDelay + lDelay\<rparr>)
             (bit_step st (tb XOR polarity, millis r))"
    using assms(1) s0_def r(1) _ r(2) _ tb_def
    by (rule loop_resolves_bit) (simp_all add: r sDelay_def lDelay_def)
  then have "loop r st =
           map_option (\<lambda>s. s\<lparr>tempBit := tb, Dstop := 726\<rparr>) (bit_step st (b, t))"
    by (simp add: tb r(3,6) sDelay_def lDelay_def)
  then show ?thesis
    using tb01 unfolding r_def by blast
qed

text \<open>
  Hence running resolved bits through \<open>bit_step\<close> and calling \<open>loop()\<close> once per bit
  give the same globals, up to \<open>tempBit\<close> and \<open>Dstop\<close>.
\<close>

lemma erase_upd: "erase (s\<lparr>tempBit := a, Dstop := d\<rparr>) = erase s"
  by (simp add: erase_def)

lemma erase_passed: "map_option erase (map_option (\<lambda>s. s\<lparr>tempBit := a, Dstop := d\<rparr>) x) = map_option erase x"
  by (cases x) (simp_all add: erase_upd)

lemma bit_step_erased: "map_option erase (bit_step (erase s) x) = map_option erase (bit_step s x)"
proof (cases "rxstate s = 0")
  case True
  have "case0 (erase s) = (case0 s)\<lparr>tempBit := polarity, Dstop := 0, rxstate := 1\<rparr>"
    using True by (simp add: case0_def erase_def)
  then have "bit_step (erase s) x =
               map_option (\<lambda>s'. s'\<lparr>tempBit := polarity, Dstop := 0\<rparr>) (bit_step s x)"
    using True by (simp add: bit_step_def erase_def assemble_passes)
  then show ?thesis
    by (simp only: erase_passed)
next
  case False
  have "erase s = s\<lparr>tempBit := 0, Dstop := 0, rxstate := rxstate s\<rparr>"
    by (simp add: erase_def)
  then have "assemble (snd x) (erase s) (fst x) =
               map_option (\<lambda>s'. s'\<lparr>tempBit := 0, Dstop := 0\<rparr>) (assemble (snd x) s (fst x))"
    by (simp only: assemble_passes)
  then have "bit_step (erase s) x =
               map_option (\<lambda>s'. s'\<lparr>tempBit := 0, Dstop := 0\<rparr>) (bit_step s x)"
    using False by (simp add: bit_step_def erase_def)
  then show ?thesis
    by (simp only: erase_passed)
qed

lemma feed_erased:
  "erase s1 = erase s2 \<Longrightarrow> map_option erase (feed s1 xs) = map_option erase (feed s2 xs)"
proof (induction xs arbitrary: s1 s2)
  case Nil
  then show ?case by simp
next
  case (Cons x xs)
  have e: "map_option erase (bit_step s1 x) = map_option erase (bit_step s2 x)"
    using bit_step_erased [of s1 x] bit_step_erased [of s2 x] Cons.prems by simp
  show ?case
  proof (cases "bit_step s1 x")
    case None
    then show ?thesis using e by (cases "bit_step s2 x") simp_all
  next
    case (Some a1)
    then obtain a2 where a2: "bit_step s2 x = Some a2" and ea: "erase a1 = erase a2"
      using e by (cases "bit_step s2 x") simp_all
    show ?thesis
      using Cons.IH [OF ea] Some a2 by simp
  qed
qed

lemma rxstate_bit_step: "bit_step st x = Some s \<Longrightarrow> rxstate s = 0 \<or> rxstate s = 1"
  by (auto simp add: bit_step_def assemble_def next_bit_def split: if_splits)

lemma drive_feed:
  assumes "rxstate st = 0 \<or> rxstate st = 1" and "tempBit st = 0 \<or> tempBit st = 1"
    and "\<forall>x \<in> set xs. fst x = 0 \<or> fst x = 1"
  shows "map_option erase (drive st xs) = map_option erase (feed st xs)"
  using assms
proof (induction xs arbitrary: st)
  case Nil
  then show ?case by simp
next
  case (Cons x xs)
  obtain b t where x: "x = (b, t)" by (cases x)
  have b: "b = 0 \<or> b = 1" using Cons.prems(3) x by simp
  obtain tb where tb: "tb = 0 \<or> tb = 1"
    and l: "loop (resolving_reads st b t) st =
              map_option (\<lambda>s. s\<lparr>tempBit := tb, Dstop := 726\<rparr>) (bit_step st (b, t))"
    using loop_drives_bit [OF Cons.prems(1,2) b, of t] by blast
  show ?case
  proof (cases "bit_step st (b, t)")
    case None
    then show ?thesis using l x by simp
  next
    case (Some s2)
    define s1 where "s1 = s2\<lparr>tempBit := tb, Dstop := 726\<rparr>"
    have r1: "rxstate s1 = 0 \<or> rxstate s1 = 1"
      using rxstate_bit_step [OF Some] by (simp add: s1_def)
    have t1: "tempBit s1 = 0 \<or> tempBit s1 = 1"
      using tb by (simp add: s1_def)
    have rest: "\<forall>x \<in> set xs. fst x = 0 \<or> fst x = 1"
      using Cons.prems(3) by simp
    have "map_option erase (drive s1 xs) = map_option erase (feed s1 xs)"
      using r1 t1 rest by (rule Cons.IH)
    also have "\<dots> = map_option erase (feed s2 xs)"
      by (rule feed_erased) (simp add: s1_def erase_upd)
    finally show ?thesis
      using l Some x by (simp add: s1_def)
  qed
qed

text \<open>In particular both hand the same frames to the interpreter.\<close>

lemma handed_drive:
  assumes "rxstate st = 0 \<or> rxstate st = 1" and "tempBit st = 0 \<or> tempBit st = 1"
    and "\<forall>x \<in> set xs. fst x = 0 \<or> fst x = 1"
  shows "map_option handed (drive st xs) = map_option handed (feed st xs)"
proof -
  have h: "map_option handed x = map_option handed (map_option erase x)" for x
    by (cases x) (simp_all add: erase_def)
  show ?thesis
    using drive_feed [OF assms] h [of "drive st xs"] h [of "feed st xs"] by simp
qed

subsection \<open>Frames\<close>

text \<open>
  Claim C1, as the code has it. A frame attempt starts with \<open>nosBits = 6\<close>, so the
  first stored byte is complete after two bits: the first zero and the bit after it
  (the "01" that ends the header in the sketch's sample); its upper six bits are the
  bits left in \<open>dataByte\<close>. For every sequence of \<open>n\<close> resolved one-bits with
  \<open>10 \<le> n \<le> 255\<close>, then one zero-bit, one further bit \<open>b\<close> and 40 payload bits,
  fed to a fresh frame attempt, exactly one frame is handed to the interpreter: byte 0
  is \<open>dataByte\<close> shifted left by two with \<open>b\<close> in its lowest bit, and bytes 1 to 5 are
  the five payload bytes, each packed most-significant-bit first from eight consecutive
  payload bits.
\<close>

theorem valid_packet_frame:
  assumes "rxstate st = 0" and "10 \<le> length ts" and "length ts < 256" and "length p = 40"
  shows "map_option handed (feed st (ones ts @ bits ((False, t0) # (b, t1) # p))) =
           Some (handed st @ [(push_bit 2 (dataByte st) OR of_bool b) # pack_bytes 5 (map fst p)])"
  using assms by (rule handed_packet)

text \<open>The sample packet of the sketch's header comment.\<close>

lemma sample_bytes:
  "pack_bytes 5 (map fst (stamp 0 (take 40 sample_packet))) = [0x45, 0x4F, 0x04, 0x4B, 0x0B]"
  by code_simp

lemma sample_bytes6:
  "pack_bytes 6 sample_packet = [0x45, 0x4F, 0x04, 0x4B, 0x0B, 0x52]"
  by code_simp

text \<open>
  The theorem at the sample packet after \<open>setup()\<close>: ten ones, "01", then the bytes
  45 4F 04 4B 0B give the frame 01 45 4F 04 4B 0B.
\<close>

theorem valid_packet_frame_witness:
  "rxstate setup_state = 0 \<and> 10 \<le> length (replicate 10 (0::ulong))
   \<and> length (replicate 10 (0::ulong)) < 256 \<and> length (stamp 0 (take 40 sample_packet)) = 40
   \<and> map_option handed
        (feed setup_state (ones (replicate 10 0) @
           bits ((False, 0) # (True, 0) # stamp 0 (take 40 sample_packet)))) =
       Some [[0x01, 0x45, 0x4F, 0x04, 0x4B, 0x0B]]"
proof -
  have a: "rxstate setup_state = 0" "dataByte setup_state = 0" "handed setup_state = []"
    by (simp_all add: setup_state_def eraseManchester_def)
  have b: "length (stamp 0 (take 40 sample_packet)) = 40"
    by (simp add: stamp_def sample_packet_def)
  show ?thesis
    using valid_packet_frame [of setup_state "replicate 10 0" "stamp 0 (take 40 sample_packet)" 0 True 0]
      a b sample_bytes
    by simp
qed

text \<open>
  Claim C1 as the spec states it fails. Ten ones, one zero and then the 48 bits of the
  six bytes 45 4F 04 4B 0B 52 do not yield the single frame 45 4F 04 4B 0B 52: the frame
  is complete 42 bits after the header, holds 00 8A 9E 08 96 16, and is handed over again
  at each of the seven bits that follow. Reading the claim with the zero as the first of
  the 48 payload bits (the byte 45 begins with a zero) fails as well. The header counter
  is a byte: after 256 ones it is 0 again, the zero counts as a fault, and the sample
  packet that follows yields no frame.
\<close>

theorem six_payload_bytes_not_a_frame:
  "map_option handed
     (feed setup_state (ones (replicate 10 0) @ bits (stamp 0 (False # sample_packet)))) =
     Some (replicate 8 [0x00, 0x8A, 0x9E, 0x08, 0x96, 0x16])
   \<and> map_option handed
     (feed setup_state (ones (replicate 10 0) @ bits (stamp 0 (False # sample_packet)))) \<noteq>
     Some [pack_bytes 6 sample_packet]
   \<and> map_option handed
     (feed setup_state (ones (replicate 10 0) @ bits (stamp 0 sample_packet))) =
     Some (replicate 7 [0x01, 0x15, 0x3C, 0x11, 0x2C, 0x2D])
   \<and> map_option handed
     (feed setup_state (ones (replicate 10 0) @ bits (stamp 0 sample_packet))) \<noteq>
     Some [pack_bytes 6 sample_packet]
   \<and> map_option handed
     (feed setup_state (ones (replicate 256 0) @
        bits ((False, 0) # (True, 0) # stamp 0 (take 40 sample_packet)))) = Some []"
proof -
  have a: "map_option handed
     (feed setup_state (ones (replicate 10 0) @ bits (stamp 0 (False # sample_packet)))) =
     Some (replicate 8 [0x00, 0x8A, 0x9E, 0x08, 0x96, 0x16])"
    by code_simp
  have b: "map_option handed
     (feed setup_state (ones (replicate 10 0) @ bits (stamp 0 sample_packet))) =
     Some (replicate 7 [0x01, 0x15, 0x3C, 0x11, 0x2C, 0x2D])"
    by code_simp
  have c: "map_option handed
     (feed setup_state (ones (replicate 256 0) @
        bits ((False, 0) # (True, 0) # stamp 0 (take 40 sample_packet)))) = Some []"
    by code_simp
  show ?thesis
    unfolding a b c sample_bytes6 by (simp add: numeral_eq_Suc)
qed

subsection \<open>A zero inside the header\<close>

lemma feed_after_premature:
  assumes "rxstate st = 0" and "length hs < 10" and "rest \<noteq> []"
  shows "feed st (ones hs @ (0, tz) # rest) = feed st rest"
proof -
  define s1 where "s1 = (case0 st)\<lparr>headerHits := of_nat (length hs), rxstate := 0\<rparr>"
  have "feed st (ones hs @ [(0, tz)] @ rest) = feed s1 rest"
    using feed_premature [OF assms(1,2), of tz]
    by (simp only: feed_append append_assoc [symmetric] s1_def option.case)
  also have "\<dots> = feed (case0 s1) rest"
    using assms(3) by (intro feed_start) (simp_all add: s1_def)
  also have "case0 s1 = case0 st"
    unfolding s1_def using assms(1) by (rule case0_after_premature)
  also have "feed (case0 st) rest = feed st rest"
    using assms(1,3) by (simp add: feed_start)
  finally show ?thesis by simp
qed

text \<open>
  Claim C4. When a resolved zero-bit arrives in a fresh frame attempt after fewer than
  ten header ones, no frame is handed over and the machine goes to state 0 with nothing
  but \<open>headerHits\<close> changed; the next \<open>loop()\<close> call passes through case 0, which sets
  \<open>tempBit\<close> to the polarity, clears \<open>firstZero\<close> and sets \<open>headerHits = 0\<close>,
  \<open>nosBits = 6\<close> and \<open>nosBytes = 0\<close>, the state of a fresh attempt. A valid header and
  packet that follow are decoded exactly as they are without the fault before them.
\<close>

theorem premature_zero_resets:
  assumes "rxstate st = 0" and "length hs < 10"
    and "10 \<le> length ts" and "length ts < 256" and "length p = 40"
  shows "feed st (ones hs @ [(0, tz)]) =
           Some ((case0 st)\<lparr>headerHits := of_nat (length hs), rxstate := 0\<rparr>)
       \<and> handed ((case0 st)\<lparr>headerHits := of_nat (length hs), rxstate := 0\<rparr>) = handed st
       \<and> loop r ((case0 st)\<lparr>headerHits := of_nat (length hs), rxstate := 0\<rparr>) =
           case1 r (case0 st)
       \<and> tempBit (case0 st) = polarity \<and> \<not> firstZero (case0 st)
       \<and> headerHits (case0 st) = 0 \<and> nosBits (case0 st) = 6 \<and> nosBytes (case0 st) = 0
       \<and> feed st (ones hs @ (0, tz) # ones ts @ bits ((False, t0) # (b, t1) # p)) =
           feed st (ones ts @ bits ((False, t0) # (b, t1) # p))
       \<and> map_option handed
           (feed st (ones hs @ (0, tz) # ones ts @ bits ((False, t0) # (b, t1) # p))) =
           Some (handed st @ [(push_bit 2 (dataByte st) OR of_bool b) # pack_bytes 5 (map fst p)])"
proof -
  have ne: "ones ts @ bits ((False, t0) # (b, t1) # p) \<noteq> []"
    by (simp add: bits_def)
  have a: "feed st (ones hs @ (0, tz) # ones ts @ bits ((False, t0) # (b, t1) # p)) =
           feed st (ones ts @ bits ((False, t0) # (b, t1) # p))"
    using assms(1,2) ne by (rule feed_after_premature)
  have l: "loop r ((case0 st)\<lparr>headerHits := of_nat (length hs), rxstate := 0\<rparr>) =
           case1 r (case0 st)"
    using case0_after_premature [OF assms(1), of "of_nat (length hs)"]
    by (simp add: loop_def)
  show ?thesis
    unfolding a handed_packet [OF assms(1,3,4,5)]
    using feed_premature [OF assms(1,2), of tz] l
    by (simp add: case0_def)
qed

theorem premature_zero_resets_witness:
  "rxstate setup_state = 0 \<and> length (replicate 9 (0::ulong)) < 10
   \<and> 10 \<le> length (replicate 10 (0::ulong)) \<and> length (replicate 10 (0::ulong)) < 256
   \<and> length (stamp 0 (take 40 sample_packet)) = 40
   \<and> map_option handed (feed setup_state (ones (replicate 9 0) @ [(0, 0)])) = Some []
   \<and> map_option rxstate (feed setup_state (ones (replicate 9 0) @ [(0, 0)])) = Some 0
   \<and> map_option handed
        (feed setup_state (ones (replicate 9 0) @ (0, 0) # ones (replicate 10 0) @
           bits ((False, 0) # (True, 0) # stamp 0 (take 40 sample_packet)))) =
       Some [[0x01, 0x45, 0x4F, 0x04, 0x4B, 0x0B]]"
proof -
  have a: "rxstate setup_state = 0" "dataByte setup_state = 0" "handed setup_state = []"
    by (simp_all add: setup_state_def eraseManchester_def)
  have b: "length (stamp 0 (take 40 sample_packet)) = 40"
    by (simp add: stamp_def sample_packet_def)
  have c: "pack_bytes 5 (map fst (stamp 0 (take 40 sample_packet))) = [0x45, 0x4F, 0x04, 0x4B, 0x0B]"
    by code_simp
  have h: "length (replicate 9 (0::ulong)) < 10" "10 \<le> length (replicate 10 (0::ulong))"
    "length (replicate 10 (0::ulong)) < 256"
    by simp_all
  note T = premature_zero_resets [OF a(1) h b, of 0 r 0 True 0]
  from T have w1: "feed setup_state (ones (replicate 9 0) @ [(0, 0)]) =
      Some ((case0 setup_state)\<lparr>headerHits := of_nat (length (replicate 9 (0::ulong))),
                                 rxstate := 0\<rparr>)"
    by blast
  from T have w2: "map_option handed
        (feed setup_state (ones (replicate 9 0) @ (0, 0) # ones (replicate 10 0) @
           bits ((False, 0) # (True, 0) # stamp 0 (take 40 sample_packet)))) =
       Some (handed setup_state @
         [(push_bit 2 (dataByte setup_state) OR of_bool True) #
          pack_bytes 5 (map fst (stamp 0 (take 40 sample_packet)))])"
    by blast
  show ?thesis
    unfolding w1 w2 using a b c by (simp add: case0_def)
qed

subsection \<open>The byte counter\<close>

text \<open>
  Claim C10 does not hold of the code. \<open>add\<close> sets \<open>rxstate = 0\<close> when the sixth
  byte is stored, but line 252 sets \<open>rxstate = 1\<close> right after \<open>add\<close> returns, so case 0
  does not run and \<open>nosBytes\<close> stays 6. After \<open>setup()\<close>, ten ones, "01" and the five
  bytes of the sample packet leave \<open>nosBytes = 6\<close> and \<open>rxstate = 1\<close>; the eight
  checksum bits that follow are stored at \<open>manchester[6]\<close> and make \<open>nosBytes = 7\<close>;
  eight more bits are stored at \<open>manchester[7]\<close>, outside the seven-byte array.
  The last line is the same run as 68 calls of \<open>loop()\<close>.
\<close>

theorem store_outside_manchester:
  "map_option nosBytes
     (feed setup_state (ones (replicate 10 0) @
        bits (stamp 0 ([False, True] @ take 40 sample_packet)))) = Some 6
   \<and> map_option rxstate
     (feed setup_state (ones (replicate 10 0) @
        bits (stamp 0 ([False, True] @ take 40 sample_packet)))) = Some 1
   \<and> map_option nosBytes
     (feed setup_state (ones (replicate 10 0) @
        bits (stamp 0 ([False, True] @ sample_packet)))) = Some 7
   \<and> feed setup_state (ones (replicate 10 0) @
        bits (stamp 0 ([False, True] @ sample_packet @ replicate 8 True))) = None
   \<and> drive setup_state (ones (replicate 10 0) @
        bits (stamp 0 ([False, True] @ sample_packet @ replicate 8 True))) = None"
proof -
  have a: "map_option nosBytes
     (feed setup_state (ones (replicate 10 0) @
        bits (stamp 0 ([False, True] @ take 40 sample_packet)))) = Some 6"
    by code_simp
  have b: "map_option rxstate
     (feed setup_state (ones (replicate 10 0) @
        bits (stamp 0 ([False, True] @ take 40 sample_packet)))) = Some 1"
    by code_simp
  have c: "map_option nosBytes
     (feed setup_state (ones (replicate 10 0) @
        bits (stamp 0 ([False, True] @ sample_packet)))) = Some 7"
    by code_simp
  have d: "feed setup_state (ones (replicate 10 0) @
        bits (stamp 0 ([False, True] @ sample_packet @ replicate 8 True))) = None"
    by code_simp
  have e: "drive setup_state (ones (replicate 10 0) @
        bits (stamp 0 ([False, True] @ sample_packet @ replicate 8 True))) = None"
    by code_simp
  show ?thesis
    using a b c d e by simp
qed

section \<open>The frame interpreter: the gate and the fields\<close>

text \<open>
  Claim C5. A frame handed to the interpreter is passed to \<open>saveReading\<close> if and only
  if byte 1 is 0x45 and byte 5 is at most 100. Any other frame is dropped: the result
  differs from the state before only in the scratch variables \<open>dataType\<close>, \<open>Newtemp\<close>,
  \<open>Newhum\<close> (written before the gate), in \<open>rxstate\<close> and in the log of frames handed
  over; the channel tables are unchanged, nothing is printed and no error value exists.
\<close>

theorem frame_gate:
  "(manchester st 1 = 0x45 \<and> manchester st 5 \<le> 100 \<longrightarrow>
      interpret_frame now st =
        saveReading now
          (st\<lparr>rxstate := 0, handed := handed st @ [map (manchester st) [0..<6]],
              dataType := 0x45, Newtemp := frame_Newtemp (manchester st),
              Newhum := uint (manchester st 5)\<rparr>)
          (frame_stnId (manchester st)) (frame_Newtemp (manchester st)) (uint (manchester st 5)))
   \<and> (\<not> (manchester st 1 = 0x45 \<and> manchester st 5 \<le> 100) \<longrightarrow>
      interpret_frame now st =
        st\<lparr>rxstate := 0, handed := handed st @ [map (manchester st) [0..<6]],
           dataType := uint (manchester st 1), Newtemp := frame_Newtemp (manchester st),
           Newhum := uint (manchester st 5)\<rparr>
      \<and> chTemp (interpret_frame now st) = chTemp st
      \<and> chHum (interpret_frame now st) = chHum st
      \<and> chLastRecv (interpret_frame now st) = chLastRecv st
      \<and> sent (interpret_frame now st) = sent st)"
proof -
  have g: "uint (manchester st 1) = 0x45 \<and> uint (manchester st 5) \<le> 100 \<longleftrightarrow>
           manchester st 1 = 0x45 \<and> manchester st 5 \<le> 100"
    by (rule gate_word)
  show ?thesis
    using g
    by (auto simp add: interpret_frame_def Let_def frame_dataType_def frame_Newhum_def
          simp del: upt_rec_numeral)
qed

theorem frame_gate_witness:
  "manchester (assembled setup_state 10 0x01 0x45 0x4F 0x04 0x4B 0x0B) 1 = 0x45
   \<and> manchester (assembled setup_state 10 0x01 0x45 0x4F 0x04 0x4B 0x0B) 5 \<le> 100
   \<and> sent (interpret_frame 5000 (assembled setup_state 10 0x01 0x45 0x4F 0x04 0x4B 0x0B)) =
       [\<lparr>rd_channel = 1, rd_temp_offset = 379, rd_hum = 11\<rparr>]
   \<and> \<not> (manchester (assembled setup_state 10 0x01 0x44 0x4F 0x04 0x4B 0x0B) 1 = 0x45
          \<and> manchester (assembled setup_state 10 0x01 0x44 0x4F 0x04 0x4B 0x0B) 5 \<le> 100)
   \<and> sent (interpret_frame 5000 (assembled setup_state 10 0x01 0x44 0x4F 0x04 0x4B 0x0B)) = []
   \<and> chTemp (interpret_frame 5000 (assembled setup_state 10 0x01 0x44 0x4F 0x04 0x4B 0x0B)) 0 = 720"
proof -
  have a: "frame_stnId (manchester (assembled setup_state 10 0x01 0x45 0x4F 0x04 0x4B 0x0B)) = 0"
    "frame_Newtemp (manchester (assembled setup_state 10 0x01 0x45 0x4F 0x04 0x4B 0x0B)) = 1099"
    by (simp_all add: frame_stnId_def frame_Newtemp_def assembled_def)
  show ?thesis
    using frame_gate [of "assembled setup_state 10 0x01 0x45 0x4F 0x04 0x4B 0x0B" 5000]
          frame_gate [of "assembled setup_state 10 0x01 0x44 0x4F 0x04 0x4B 0x0B" 5000] a
    by (simp add: assembled_def after_header_def case0_def saveReading_run del: upt_rec_numeral)
qed

text \<open>
  Claim C6. The channel id is the 3-bit field in bits 4 to 6 of byte 3, hence in 0..7;
  the raw temperature is the low three bits of byte 3 placed above the eight bits of
  byte 4, a value below \<open>2 ^ 12\<close> (with three high bits it is at most 2047); the raw
  humidity is byte 5.
\<close>

theorem frame_fields:
  "frame_stnId (manchester st) = uint (take_bit 3 (drop_bit 4 (manchester st 3)))
   \<and> 0 \<le> frame_stnId (manchester st) \<and> frame_stnId (manchester st) \<le> 7
   \<and> Newtemp (interpret_frame now st) =
       concat_bit 8 (uint (manchester st 4)) (uint (take_bit 3 (manchester st 3)))
   \<and> 0 \<le> Newtemp (interpret_frame now st) \<and> Newtemp (interpret_frame now st) < 2 ^ 12
   \<and> Newtemp (interpret_frame now st) \<le> 2047
   \<and> Newhum (interpret_frame now st) = uint (manchester st 5)"
  using stnId_range [of "manchester st"] temp_range [of "manchester st"]
  by (simp add: extract_fields flip: stnId_field temp_field)

end
